theory Spec2Isabelle
  imports Main "HOL-Library.Word"
begin

unbundle bit_operations_syntax

section \<open>The replacement-character scan\<close>

text \<open>
  The program is one loop over \<^verbatim>\<open>Path('.').rglob('*')\<close>:

  \<^verbatim>\<open>
  for path in root.rglob('*'):
      if path.is_file() and path.suffix not in {'.png', ..., '.ttf'}:
          try:
              text = path.read_text(encoding='utf-8')
          except Exception:
              continue
          if '\uFFFD' in text:
              print(f"{path}")
  \<close>

  Its input is the directory tree as the enumeration presents it, its effects are the
  files it opens, the lines it prints and the exception that ends it, if one does. The library calls it makes
  (\<^verbatim>\<open>PurePath.name\<close>, \<^verbatim>\<open>PurePath.suffix\<close>, \<^verbatim>\<open>Path.read_text\<close>, the strict UTF-8 codec and
  the universal-newline translation of text mode) are modelled after CPython.
\<close>

subsection \<open>Paths: \<^verbatim>\<open>name\<close> and \<^verbatim>\<open>suffix\<close>\<close>

text \<open>
  A path is the string \<^verbatim>\<open>str(path)\<close>, relative to the root, components separated by
  \<^verbatim>\<open>/\<close>. \<^verbatim>\<open>str.rfind\<close> gives the highest index of a character, or \<open>-1\<close>.
\<close>

type_synonym path = string

fun rfind :: "'a list \<Rightarrow> 'a \<Rightarrow> int" where
  "rfind [] c = - 1"
| "rfind (x # xs) c =
     (let r = rfind xs c in if 0 \<le> r then r + 1 else if x = c then 0 else - 1)"

text \<open>The final component of the path (\<^verbatim>\<open>PurePath.name\<close>).\<close>

definition name :: "path \<Rightarrow> string" where
  "name p = drop (nat (rfind p (CHR ''/'') + 1)) p"

text \<open>
  \<^verbatim>\<open>PurePath.suffix\<close>:

  \<^verbatim>\<open>
  name = self.name
  i = name.rfind('.')
  if 0 < i < len(name) - 1:
      return name[i:]
  else:
      return ''
  \<close>
\<close>

definition suffix :: "path \<Rightarrow> string" where
  "suffix p =
     (let nm = name p; i = rfind nm (CHR ''.'')
      in if 0 < i \<and> i < int (length nm) - 1 then drop (nat i) nm else [])"

text \<open>The set literal of line 4 of the source.\<close>

definition skip_set :: "string set" where
  "skip_set = {''.png'', ''.jpg'', ''.jpeg'', ''.gif'', ''.pdf'', ''.zip'', ''.ico'',
               ''.woff'', ''.woff2'', ''.ttf''}"

subsection \<open>Strict UTF-8 decoding\<close>

text \<open>
  Bytes are 8-bit words, a Python \<^verbatim>\<open>str\<close> is the list of its code points.
  \<^verbatim>\<open>read_text(encoding='utf-8')\<close> passes no \<^verbatim>\<open>errors\<close> argument, so the codec runs in
  strict mode: it accepts exactly the well-formed sequences of the Unicode standard
  (no overlong form, no surrogate, nothing above U+10FFFF) and raises
  \<^verbatim>\<open>UnicodeDecodeError\<close> on anything else. It never substitutes U+FFFD.
\<close>

type_synonym byte = "8 word"
type_synonym pystr = "nat list"

definition is_cont :: "byte \<Rightarrow> bool" where
  "is_cont b = (0x80 \<le> b \<and> b \<le> 0xBF)"

definition cont_bits :: "byte \<Rightarrow> nat" where
  "cont_bits b = unat (b AND 0x3F)"

text \<open>One code point from the front of the input, with the bytes that remain.\<close>

fun utf8_next :: "byte list \<Rightarrow> (nat \<times> byte list) option" where
  "utf8_next [] = None"
| "utf8_next (b0 # bs) =
     (if b0 < 0x80 then Some (unat b0, bs)
      else if 0xC2 \<le> b0 \<and> b0 \<le> 0xDF then
        (case bs of
           b1 # r \<Rightarrow>
             if is_cont b1 then Some (unat (b0 AND 0x1F) * 64 + cont_bits b1, r) else None
         | _ \<Rightarrow> None)
      else if 0xE0 \<le> b0 \<and> b0 \<le> 0xEF then
        (case bs of
           b1 # b2 # r \<Rightarrow>
             if is_cont b1 \<and> is_cont b2
                \<and> (b0 = 0xE0 \<longrightarrow> 0xA0 \<le> b1) \<and> (b0 = 0xED \<longrightarrow> b1 \<le> 0x9F)
             then Some (unat (b0 AND 0x0F) * 4096 + cont_bits b1 * 64 + cont_bits b2, r)
             else None
         | _ \<Rightarrow> None)
      else if 0xF0 \<le> b0 \<and> b0 \<le> 0xF4 then
        (case bs of
           b1 # b2 # b3 # r \<Rightarrow>
             if is_cont b1 \<and> is_cont b2 \<and> is_cont b3
                \<and> (b0 = 0xF0 \<longrightarrow> 0x90 \<le> b1) \<and> (b0 = 0xF4 \<longrightarrow> b1 \<le> 0x8F)
             then Some (unat (b0 AND 0x07) * 262144 + cont_bits b1 * 4096
                        + cont_bits b2 * 64 + cont_bits b3, r)
             else None
         | _ \<Rightarrow> None)
      else None)"

function utf8_decode :: "byte list \<Rightarrow> pystr option" where
  "utf8_decode bs =
     (if bs = [] then Some []
      else case utf8_next bs of
             None \<Rightarrow> None
           | Some (c, r) \<Rightarrow> map_option (Cons c) (utf8_decode r))"
  by pat_completeness auto
termination
  apply (relation "measure length")
   apply simp
  apply (case_tac bs)
   apply (auto split: if_splits list.splits)
  done


text \<open>
  Text mode with the default \<^verbatim>\<open>newline=None\<close> translates \<^verbatim>\<open>\r\n\<close> and a lone \<^verbatim>\<open>\r\<close>
  into \<^verbatim>\<open>\n\<close> after decoding.
\<close>

fun universal_newlines :: "pystr \<Rightarrow> pystr" where
  "universal_newlines [] = []"
| "universal_newlines [c] = (if c = 13 then [10] else [c])"
| "universal_newlines (c # d # cs) =
     (if c = 13 \<and> d = 10 then 10 # universal_newlines cs
      else if c = 13 then 10 # universal_newlines (d # cs)
      else c # universal_newlines (d # cs))"

subsection \<open>The directory tree and the effects of the run\<close>

text \<open>
  Three calls of the loop can raise. \<^verbatim>\<open>read_text\<close> stands inside the \<^verbatim>\<open>try\<close>;
  \<^verbatim>\<open>path.is_file()\<close> on line 4 and \<^verbatim>\<open>print\<close> on line 10 stand outside it.
  \<^verbatim>\<open>Path.is_file\<close> returns \<^verbatim>\<open>False\<close> for the errors ENOENT, ENOTDIR, EBADF and ELOOP and
  raises every other \<^verbatim>\<open>OSError\<close> again (permission denied on a parent directory, for
  one); \<^verbatim>\<open>print\<close> raises \<^verbatim>\<open>UnicodeEncodeError\<close> when standard output cannot encode the
  file name.
\<close>

datatype os_error = PermissionError | FileNotFoundError | IsADirectoryError | InputOutputError

datatype exn = OSError os_error | UnicodeDecodeError | UnicodeEncodeError

text \<open>
  An entry is what \<^verbatim>\<open>rglob\<close> yields together with what the system answers for it: the
  path, the outcome of \<^verbatim>\<open>is_file()\<close> (an \<^verbatim>\<open>OSError\<close> or the boolean), the outcome of
  opening the file and reading all of it (an \<^verbatim>\<open>OSError\<close> or the bytes), and the exception
  that printing the path raises, if any. The tree is the list of its entries in the order
  of the enumeration.
\<close>

record entry =
  path :: path
  is_file :: "os_error + bool"
  read_bytes :: "os_error + byte list"
  print_raises :: "exn option"

text \<open>\<^verbatim>\<open>path.read_text(encoding='utf-8')\<close>: the text, or the exception it raises.\<close>

definition read_text :: "entry \<Rightarrow> exn + pystr" where
  "read_text e =
     (case read_bytes e of
        Inl err \<Rightarrow> Inl (OSError err)
      | Inr bs \<Rightarrow>
          (case utf8_decode bs of
             None \<Rightarrow> Inl UnicodeDecodeError
           | Some t \<Rightarrow> Inr (universal_newlines t)))"

text \<open>
  The effects: the lines printed on standard output (one path each), the paths whose
  content the run has asked for, both in order, and the uncaught exception that has ended
  the run (\<open>None\<close> while it runs and when it ends normally).
\<close>

record io =
  stdout :: "path list"
  opened :: "path list"
  raised :: "exn option"

definition uFFFD :: nat where
  "uFFFD = 0xFFFD"

text \<open>
  The body of the loop. An exception of \<^verbatim>\<open>is_file()\<close> or of \<^verbatim>\<open>print\<close> is not caught. Every
  exception of \<^verbatim>\<open>read_text\<close> is an \<^verbatim>\<open>Exception\<close>: the handler catches it and \<^verbatim>\<open>continue\<close>
  leaves the iteration. The \<^verbatim>\<open>and\<close> of line 4 looks at the suffix only when \<^verbatim>\<open>is_file()\<close>
  has returned \<^verbatim>\<open>True\<close>.
\<close>

definition body :: "entry \<Rightarrow> io \<Rightarrow> io" where
  "body e s =
     (case is_file e of
        Inl err \<Rightarrow> s\<lparr>raised := Some (OSError err)\<rparr>
      | Inr f \<Rightarrow>
          if f \<and> suffix (path e) \<notin> skip_set then
            (let s1 = s\<lparr>opened := opened s @ [path e]\<rparr>
             in case read_text e of
                  Inl _ \<Rightarrow> s1
                | Inr t \<Rightarrow>
                    if uFFFD \<in> set t then
                      (case print_raises e of
                         None \<Rightarrow> s1\<lparr>stdout := stdout s1 @ [path e]\<rparr>
                       | Some x \<Rightarrow> s1\<lparr>raised := Some x\<rparr>)
                    else s1)
          else s)"

text \<open>The loop: an uncaught exception of the body ends it.\<close>

fun scan :: "entry list \<Rightarrow> io \<Rightarrow> io" where
  "scan [] s = s"
| "scan (e # es) s =
     (let s' = body e s in case raised s' of None \<Rightarrow> scan es s' | Some _ \<Rightarrow> s')"

text \<open>The whole program, on the entries that the enumeration of the root yields.\<close>

definition main :: "entry list \<Rightarrow> io" where
  "main es = scan es \<lparr>stdout = [], opened = [], raised = None\<rparr>"

subsection \<open>What one entry contributes\<close>

text \<open>
  Predicates derived from the loop body, used to describe its effects: \<open>attempts e\<close> when
  the guard of line 4 lets the entry through to \<^verbatim>\<open>read_text\<close>, \<open>finds e\<close> when the body
  reaches \<^verbatim>\<open>print\<close>, \<open>prints e\<close> when that call writes the line, and \<open>abort_exn e\<close> for the
  exception with which the entry ends the run.
\<close>

definition attempts :: "entry \<Rightarrow> bool" where
  "attempts e = (is_file e = Inr True \<and> suffix (path e) \<notin> skip_set)"

definition finds :: "entry \<Rightarrow> bool" where
  "finds e = (attempts e \<and> (case read_text e of Inl _ \<Rightarrow> False | Inr t \<Rightarrow> uFFFD \<in> set t))"

definition prints :: "entry \<Rightarrow> bool" where
  "prints e = (finds e \<and> print_raises e = None)"

definition abort_exn :: "entry \<Rightarrow> exn option" where
  "abort_exn e =
     (case is_file e of
        Inl err \<Rightarrow> Some (OSError err)
      | Inr _ \<Rightarrow> if finds e then print_raises e else None)"

text \<open>
  The report condition as the specification words it: a regular file, whose extension is
  not in the skip-set, whose full byte content decodes as UTF-8 to a string with at least
  one U+FFFD.
\<close>

definition report_condition :: "entry \<Rightarrow> bool" where
  "report_condition e =
     (is_file e = Inr True \<and> suffix (path e) \<notin> skip_set \<and>
      (case read_bytes e of
         Inl _ \<Rightarrow> False
       | Inr bs \<Rightarrow> (case utf8_decode bs of None \<Rightarrow> False | Some t \<Rightarrow> uFFFD \<in> set t)))"

subsection \<open>Small trees\<close>

text \<open>
  A directory \<^verbatim>\<open>docs\<close> and five files: text with a U+FFFD in it (\<^verbatim>\<open>a\<close>, U+FFFD, CR, LF),
  the two bytes \<^verbatim>\<open>FF FE\<close>, the ASCII text \<^verbatim>\<open>hello world\<close>, an image whose bytes are the
  encoding of U+FFFD, and a file that cannot be opened.
\<close>

definition docs_dir :: entry where
  "docs_dir = \<lparr>path = ''docs'', is_file = Inr False, read_bytes = Inl IsADirectoryError,
                print_raises = None\<rparr>"

definition marked_txt :: entry where
  "marked_txt = \<lparr>path = ''docs/marked.txt'', is_file = Inr True,
                  read_bytes = Inr [0x61, 0xEF, 0xBF, 0xBD, 0x0D, 0x0A], print_raises = None\<rparr>"

definition bad_txt :: entry where
  "bad_txt = \<lparr>path = ''bad.txt'', is_file = Inr True, read_bytes = Inr [0xFF, 0xFE],
               print_raises = None\<rparr>"

definition good_txt :: entry where
  "good_txt = \<lparr>path = ''good.txt'', is_file = Inr True,
                read_bytes = Inr [0x68, 0x65, 0x6C, 0x6C, 0x6F, 0x20, 0x77, 0x6F, 0x72, 0x6C, 0x64],
                print_raises = None\<rparr>"

definition logo_png :: entry where
  "logo_png = \<lparr>path = ''docs/logo.png'', is_file = Inr True, read_bytes = Inr [0xEF, 0xBF, 0xBD],
                print_raises = None\<rparr>"

definition locked_txt :: entry where
  "locked_txt = \<lparr>path = ''locked.txt'', is_file = Inr True, read_bytes = Inl PermissionError,
                  print_raises = None\<rparr>"

definition example_tree :: "entry list" where
  "example_tree = [docs_dir, marked_txt, bad_txt, good_txt, logo_png, locked_txt]"

text \<open>
  Three files that differ in the dots of their names only, each holding the encoding of
  U+FFFD.
\<close>

definition a_png_txt :: entry where
  "a_png_txt = \<lparr>path = ''docs/a.png.txt'', is_file = Inr True, read_bytes = Inr [0xEF, 0xBF, 0xBD],
                 print_raises = None\<rparr>"

definition a_txt_png :: entry where
  "a_txt_png = \<lparr>path = ''docs/a.txt.png'', is_file = Inr True, read_bytes = Inr [0xEF, 0xBF, 0xBD],
                 print_raises = None\<rparr>"

definition dot_png :: entry where
  "dot_png = \<lparr>path = ''docs/.png'', is_file = Inr True, read_bytes = Inr [0xEF, 0xBF, 0xBD],
               print_raises = None\<rparr>"

definition suffix_tree :: "entry list" where
  "suffix_tree = [a_png_txt, a_txt_png, dot_png]"

text \<open>
  Entries on which a call outside the \<^verbatim>\<open>try\<close> raises. The directory \<^verbatim>\<open>noexec\<close> can be
  listed but not searched, so \<^verbatim>\<open>is_file()\<close> raises \<^verbatim>\<open>PermissionError\<close> on what it holds;
  \<^verbatim>\<open>later/later.txt\<close> is an ordinary file holding the encoding of U+FFFD; the name of the
  last file is the byte \<^verbatim>\<open>FF\<close> followed by \<^verbatim>\<open>.txt\<close>, which a strict UTF-8 standard output
  cannot encode.
\<close>

definition noexec_x_txt :: entry where
  "noexec_x_txt = \<lparr>path = ''noexec/x.txt'', is_file = Inl PermissionError,
                    read_bytes = Inl PermissionError, print_raises = None\<rparr>"

definition noexec_x_png :: entry where
  "noexec_x_png = \<lparr>path = ''noexec/x.png'', is_file = Inl PermissionError,
                    read_bytes = Inl PermissionError, print_raises = None\<rparr>"

definition later_txt :: entry where
  "later_txt = \<lparr>path = ''later/later.txt'', is_file = Inr True,
                 read_bytes = Inr [0xEF, 0xBF, 0xBD], print_raises = None\<rparr>"

definition xff_txt :: entry where
  "xff_txt = \<lparr>path = CHR 0xFF # ''.txt'', is_file = Inr True,
               read_bytes = Inr [0xEF, 0xBF, 0xBD], print_raises = Some UnicodeEncodeError\<rparr>"

subsection \<open>Effects of the loop\<close>

lemma stdout_body: "stdout (body e s) = stdout s @ (if prints e then [path e] else [])"
  by (simp add: body_def prints_def finds_def attempts_def Let_def
      split: sum.splits option.splits)

lemma opened_body: "opened (body e s) = opened s @ (if attempts e then [path e] else [])"
  by (simp add: body_def attempts_def Let_def split: sum.splits option.splits)

lemma raised_body:
  "raised (body e s) = (case abort_exn e of None \<Rightarrow> raised s | Some x \<Rightarrow> Some x)"
  by (simp add: body_def abort_exn_def finds_def attempts_def Let_def
      split: sum.splits option.splits)

text \<open>An entry that ends the run prints nothing.\<close>

lemma abort_not_prints: "abort_exn e = Some x \<Longrightarrow> \<not> prints e"
  by (auto simp: abort_exn_def prints_def finds_def attempts_def split: sum.splits if_splits)

text \<open>Whatever happens, a printed path is that of a printing entry, an opened one that of an
  attempted entry.\<close>

lemma stdout_scan_subset:
  "set (stdout (scan es s)) \<subseteq> set (stdout s) \<union> path ` {e \<in> set es. prints e}"
proof (induction es arbitrary: s)
  case Nil
  then show ?case by simp
next
  case (Cons e es)
  have b: "set (stdout (body e s)) \<subseteq> set (stdout s) \<union> path ` {x \<in> set (e # es). prints x}"
    by (auto simp: stdout_body)
  show ?case
  proof (cases "raised (body e s)")
    case None
    with Cons.IH [of "body e s"] b show ?thesis
      by (auto simp: Let_def)
  next
    case (Some x)
    with b show ?thesis
      by (simp add: Let_def)
  qed
qed

lemma opened_scan_subset:
  "set (opened (scan es s)) \<subseteq> set (opened s) \<union> path ` {e \<in> set es. attempts e}"
proof (induction es arbitrary: s)
  case Nil
  then show ?case by simp
next
  case (Cons e es)
  have b: "set (opened (body e s)) \<subseteq> set (opened s) \<union> path ` {x \<in> set (e # es). attempts x}"
    by (auto simp: opened_body)
  show ?case
  proof (cases "raised (body e s)")
    case None
    with Cons.IH [of "body e s"] b show ?thesis
      by (auto simp: Let_def)
  next
    case (Some x)
    with b show ?thesis
      by (simp add: Let_def)
  qed
qed

text \<open>A run that ends normally has visited every entry, and no entry has raised.\<close>

lemma scan_completed:
  "raised (scan es s) = None \<Longrightarrow>
     stdout (scan es s) = stdout s @ map path (filter prints es)
     \<and> opened (scan es s) = opened s @ map path (filter attempts es)
     \<and> (\<forall>e \<in> set es. abort_exn e = None)"
proof (induction es arbitrary: s)
  case Nil
  then show ?case by simp
next
  case (Cons e es)
  show ?case
  proof (cases "raised (body e s)")
    case None
    then have a: "abort_exn e = None"
      by (simp add: raised_body split: option.splits)
    from None Cons.prems have "raised (scan es (body e s)) = None"
      by (simp add: Let_def)
    from Cons.IH [OF this] None a show ?thesis
      by (simp add: Let_def stdout_body opened_body)
  next
    case (Some x)
    with Cons.prems show ?thesis
      by (simp add: Let_def)
  qed
qed

lemma scan_no_abort:
  "raised s = None \<Longrightarrow> \<forall>e \<in> set es. abort_exn e = None \<Longrightarrow> raised (scan es s) = None"
proof (induction es arbitrary: s)
  case Nil
  then show ?case by simp
next
  case (Cons e es)
  then have r: "raised (body e s) = None"
    by (simp add: raised_body)
  from Cons.prems(2) have "\<forall>x \<in> set es. abort_exn x = None"
    by simp
  from Cons.IH [OF r this] r show ?case
    by (simp add: Let_def)
qed

lemma completed_iff: "raised (main es) = None \<longleftrightarrow> (\<forall>e \<in> set es. abort_exn e = None)"
proof
  assume "raised (main es) = None"
  then show "\<forall>e \<in> set es. abort_exn e = None"
    unfolding main_def by (rule scan_completed [THEN conjunct2, THEN conjunct2])
next
  assume "\<forall>e \<in> set es. abort_exn e = None"
  then show "raised (main es) = None"
    unfolding main_def by (intro scan_no_abort) simp_all
qed

lemma completed_stdout: "raised (main es) = None \<Longrightarrow> stdout (main es) = map path (filter prints es)"
  unfolding main_def by (drule scan_completed) simp

lemma completed_opened:
  "raised (main es) = None \<Longrightarrow> opened (main es) = map path (filter attempts es)"
  unfolding main_def by (drule scan_completed) simp

text \<open>With distinct paths, an entry's path stands in a list of paths only for that entry.\<close>

lemma path_in_image:
  assumes "distinct (map path es)" and "e \<in> set es" and "path e \<in> path ` {x \<in> set es. P x}"
  shows "P e"
proof -
  from assms(3) obtain e' where e': "e' \<in> set es" "P e'" "path e' = path e"
    by auto
  from assms(1,2) e'(1,3) have "e' = e"
    by (meson distinct_map inj_onD)
  with e'(2) show ?thesis by simp
qed

lemma reported_imp:
  assumes "distinct (map path es)" and "e \<in> set es" and "path e \<in> set (stdout (main es))"
  shows "prints e"
proof -
  from assms(3) stdout_scan_subset [of es "\<lparr>stdout = [], opened = [], raised = None\<rparr>"]
  have "path e \<in> path ` {x \<in> set es. prints x}"
    by (auto simp: main_def)
  with assms(1,2) show ?thesis
    by (rule path_in_image)
qed

lemma opened_imp:
  assumes "distinct (map path es)" and "e \<in> set es" and "path e \<in> set (opened (main es))"
  shows "attempts e"
proof -
  from assms(3) opened_scan_subset [of es "\<lparr>stdout = [], opened = [], raised = None\<rparr>"]
  have "path e \<in> path ` {x \<in> set es. attempts x}"
    by (auto simp: main_def)
  with assms(1,2) show ?thesis
    by (rule path_in_image)
qed

lemma completed_reported_iff:
  assumes "raised (main es) = None" and "distinct (map path es)" and "e \<in> set es"
  shows "path e \<in> set (stdout (main es)) \<longleftrightarrow> prints e"
proof
  assume "path e \<in> set (stdout (main es))"
  with assms(2,3) show "prints e"
    by (rule reported_imp)
next
  assume "prints e"
  with assms(3) show "path e \<in> set (stdout (main es))"
    by (auto simp: completed_stdout [OF assms(1)])
qed

lemma completed_opened_iff:
  assumes "raised (main es) = None" and "distinct (map path es)" and "e \<in> set es"
  shows "path e \<in> set (opened (main es)) \<longleftrightarrow> attempts e"
proof
  assume "path e \<in> set (opened (main es))"
  with assms(2,3) show "attempts e"
    by (rule opened_imp)
next
  assume "attempts e"
  with assms(3) show "path e \<in> set (opened (main es))"
    by (auto simp: completed_opened [OF assms(1)])
qed

text \<open>The newline translation neither adds nor removes a character other than CR and LF.\<close>

lemma universal_newlines_mem:
  "c \<noteq> 10 \<Longrightarrow> c \<noteq> 13 \<Longrightarrow> c \<in> set (universal_newlines t) \<longleftrightarrow> c \<in> set t"
  by (induction t rule: universal_newlines.induct) auto

lemma uFFFD_newlines: "uFFFD \<in> set (universal_newlines t) \<longleftrightarrow> uFFFD \<in> set t"
  by (rule universal_newlines_mem) (simp_all add: uFFFD_def)

text \<open>The code reaches \<^verbatim>\<open>print\<close> exactly on the specification's report condition.\<close>

lemma finds_iff_report_condition: "finds e \<longleftrightarrow> report_condition e"
  by (simp add: finds_def attempts_def report_condition_def read_text_def uFFFD_newlines
      split: sum.splits option.splits)

text \<open>An exception of \<^verbatim>\<open>read_text\<close> is caught: the iteration prints nothing and raises nothing.\<close>

lemma read_error_caught:
  assumes "is_file e = Inr f" and "read_text e = Inl x"
  shows "stdout (body e s) = stdout s \<and> raised (body e s) = raised s"
  using assms by (simp add: body_def Let_def)

subsection \<open>Properties of \<^verbatim>\<open>rfind\<close>, \<^verbatim>\<open>name\<close> and \<^verbatim>\<open>suffix\<close>\<close>

lemma rfind_bounds: "- 1 \<le> rfind xs c \<and> rfind xs c < int (length xs)"
  by (induction xs) (auto simp: Let_def)

lemma rfind_notin: "c \<notin> set xs \<Longrightarrow> rfind xs c = - 1"
  by (induction xs) (auto simp: Let_def)

lemma rfind_neg: "\<not> 0 \<le> rfind xs c \<Longrightarrow> c \<notin> set xs"
  by (induction xs) (auto simp: Let_def split: if_splits)

lemma rfind_append: "c \<notin> set ys \<Longrightarrow> rfind (xs @ c # ys) c = int (length xs)"
  by (induction xs) (auto simp: Let_def rfind_notin)

lemma rfind_split:
  "0 \<le> rfind xs c \<Longrightarrow>
   \<exists>ys zs. xs = ys @ c # zs \<and> c \<notin> set zs \<and> rfind xs c = int (length ys)"
proof (induction xs)
  case Nil
  then show ?case by simp
next
  case (Cons x xs)
  show ?case
  proof (cases "0 \<le> rfind xs c")
    case True
    with Cons.IH obtain ys zs where "xs = ys @ c # zs" "c \<notin> set zs" "rfind xs c = int (length ys)"
      by blast
    then have "x # xs = (x # ys) @ c # zs \<and> c \<notin> set zs \<and> rfind (x # xs) c = int (length (x # ys))"
      by (simp add: Let_def)
    then show ?thesis by blast
  next
    case False
    with Cons.prems have "x = c" and "rfind (x # xs) c = 0"
      by (auto simp: Let_def split: if_splits)
    moreover from False have "c \<notin> set xs"
      by (simp add: rfind_neg)
    ultimately have "x # xs = [] @ c # xs \<and> c \<notin> set xs \<and> rfind (x # xs) c = int (length ([]::'a list))"
      by simp
    then show ?thesis by blast
  qed
qed

lemma rfind_neg_iff: "rfind xs c < 0 \<longleftrightarrow> c \<notin> set xs"
proof
  assume "rfind xs c < 0"
  then have "\<not> 0 \<le> rfind xs c" by simp
  then show "c \<notin> set xs" by (rule rfind_neg)
next
  assume "c \<notin> set xs"
  then have "rfind xs c = - 1" by (rule rfind_notin)
  then show "rfind xs c < 0" by simp
qed

lemma drop_rfind_Suc: "c \<notin> set (drop (nat (rfind xs c + 1)) xs)"
proof (cases "0 \<le> rfind xs c")
  case True
  from rfind_split [OF True] obtain ys zs where xs: "xs = ys @ c # zs" and c: "c \<notin> set zs"
    and r: "rfind xs c = int (length ys)"
    by blast
  have "nat (rfind xs c + 1) = Suc (length ys)"
    unfolding r by simp
  then have "drop (nat (rfind xs c + 1)) xs = zs"
    unfolding xs by simp
  with c show ?thesis by simp
next
  case False
  then have n: "c \<notin> set xs"
    by (rule rfind_neg)
  then have "rfind xs c = - 1"
    by (rule rfind_notin)
  then have "drop (nat (rfind xs c + 1)) xs = xs"
    by simp
  with n show ?thesis by simp
qed

lemma name_no_sep: "CHR ''/'' \<notin> set (name p)"
  unfolding name_def by (rule drop_rfind_Suc)

lemma name_idem: "name (name p) = name p"
proof -
  have "rfind (name p) (CHR ''/'') = - 1"
    by (rule rfind_notin) (rule name_no_sep)
  then show ?thesis
    by (simp add: name_def [of "name p"])
qed

lemma suffix_name: "suffix (name p) = suffix p"
  by (simp add: suffix_def name_idem)

lemma suffix_of_name:
  assumes "name p = stem @ CHR ''.'' # ext" and "CHR ''.'' \<notin> set ext"
  shows "suffix p = (if stem = [] \<or> ext = [] then [] else CHR ''.'' # ext)"
proof -
  from assms(2) have "rfind (stem @ CHR ''.'' # ext) (CHR ''.'') = int (length stem)"
    by (rule rfind_append)
  with assms(1) show ?thesis
    by (auto simp: suffix_def Let_def)
qed

lemma suffix_shape:
  assumes "suffix p \<noteq> []"
  shows "\<exists>stem ext. name p = stem @ suffix p \<and> suffix p = CHR ''.'' # ext \<and> stem \<noteq> [] \<and> ext \<noteq> []
           \<and> CHR ''.'' \<notin> set ext"
proof -
  let ?i = "rfind (name p) (CHR ''.'')"
  from assms have i: "0 < ?i" "?i < int (length (name p)) - 1"
    and s: "suffix p = drop (nat ?i) (name p)"
    by (simp_all add: suffix_def Let_def split: if_splits)
  from i(1) have "0 \<le> ?i" by simp
  from rfind_split [OF this] obtain ys zs
    where yz: "name p = ys @ CHR ''.'' # zs" "CHR ''.'' \<notin> set zs" "?i = int (length ys)"
    by blast
  from s yz(1,3) have s': "suffix p = CHR ''.'' # zs"
    by simp
  from i yz(1,3) have "ys \<noteq> []" "zs \<noteq> []"
    by auto
  with yz s' show ?thesis by auto
qed

subsection \<open>Consequences for the whole run\<close>

lemma not_reported:
  assumes "distinct (map path es)" and "e \<in> set es" and "\<not> prints e"
  shows "path e \<notin> set (stdout (main es))"
  using assms reported_imp by blast

lemma not_opened:
  assumes "distinct (map path es)" and "e \<in> set es" and "\<not> attempts e"
  shows "path e \<notin> set (opened (main es))"
  using assms opened_imp by blast

text \<open>No entry with the report condition, no line.\<close>

lemma no_report_condition_no_output:
  assumes "\<forall>e \<in> set es. \<not> report_condition e"
  shows "stdout (main es) = []"
proof -
  from assms have "{e \<in> set es. prints e} = {}"
    by (auto simp: prints_def finds_iff_report_condition)
  with stdout_scan_subset [of es "\<lparr>stdout = [], opened = [], raised = None\<rparr>"]
  show ?thesis
    by (simp add: main_def)
qed

text \<open>An entry that the guard of line 4 turns away leaves the effects as they were.\<close>

lemma body_unchanged:
  "is_file e = Inr False \<or> (is_file e = Inr True \<and> suffix (path e) \<in> skip_set) \<Longrightarrow> body e s = s"
  by (auto simp: body_def)

text \<open>One iteration, by what the entry contributes.\<close>

lemma body_eq:
  "body e s =
     s\<lparr>stdout := stdout s @ (if prints e then [path e] else []),
       opened := opened s @ (if attempts e then [path e] else []),
       raised := (case abort_exn e of None \<Rightarrow> raised s | Some x \<Rightarrow> Some x)\<rparr>"
proof (rule io.equality)
  show "stdout (body e s) = stdout (s\<lparr>stdout := stdout s @ (if prints e then [path e] else []),
       opened := opened s @ (if attempts e then [path e] else []),
       raised := (case abort_exn e of None \<Rightarrow> raised s | Some x \<Rightarrow> Some x)\<rparr>)"
    by (simp add: stdout_body)
  show "opened (body e s) = opened (s\<lparr>stdout := stdout s @ (if prints e then [path e] else []),
       opened := opened s @ (if attempts e then [path e] else []),
       raised := (case abort_exn e of None \<Rightarrow> raised s | Some x \<Rightarrow> Some x)\<rparr>)"
    by (simp add: opened_body)
  show "raised (body e s) = raised (s\<lparr>stdout := stdout s @ (if prints e then [path e] else []),
       opened := opened s @ (if attempts e then [path e] else []),
       raised := (case abort_exn e of None \<Rightarrow> raised s | Some x \<Rightarrow> Some x)\<rparr>)"
    by (simp add: raised_body)
qed simp

lemma finds_iff: "finds e \<longleftrightarrow> attempts e \<and> (\<exists>t. read_text e = Inr t \<and> uFFFD \<in> set t)"
  by (cases "read_text e") (simp_all add: finds_def)

text \<open>
  In a run that ends normally, a regular file outside the skip-set whose bytes were read is
  printed exactly when they decode to a text with U+FFFD.
\<close>

lemma completed_report_iff:
  assumes "raised (main es) = None" and "distinct (map path es)" and "e \<in> set es"
    and "is_file e = Inr True" and "suffix (path e) \<notin> skip_set" and "read_bytes e = Inr bs"
  shows "path e \<in> set (stdout (main es)) \<longleftrightarrow> (\<exists>t. utf8_decode bs = Some t \<and> uFFFD \<in> set t)"
proof -
  from assms(1,3) have a: "abort_exn e = None"
    by (simp add: completed_iff)
  from assms(4-6) have f: "finds e \<longleftrightarrow> (\<exists>t. utf8_decode bs = Some t \<and> uFFFD \<in> set t)"
    by (simp add: finds_iff_report_condition report_condition_def split: option.splits)
  from a assms(4) have "prints e \<longleftrightarrow> finds e"
    by (auto simp: abort_exn_def prints_def split: if_splits)
  with f completed_reported_iff [OF assms(1-3)] show ?thesis
    by simp
qed

subsection \<open>Evaluating the small trees\<close>

lemmas example_defs =
  docs_dir_def marked_txt_def bad_txt_def good_txt_def logo_png_def locked_txt_def
  a_png_txt_def a_txt_png_def dot_png_def
  noexec_x_txt_def noexec_x_png_def later_txt_def xff_txt_def

lemma decode_marked:
  "utf8_decode [0x61, 0xEF, 0xBF, 0xBD, 0x0D, 0x0A] = Some [97, 65533, 13, 10]"
  by (simp add: is_cont_def cont_bits_def)

lemma decode_bad: "utf8_decode [0xFF, 0xFE] = None"
  by simp

lemma decode_good:
  "utf8_decode [0x68, 0x65, 0x6C, 0x6C, 0x6F, 0x20, 0x77, 0x6F, 0x72, 0x6C, 0x64]
   = Some [104, 101, 108, 108, 111, 32, 119, 111, 114, 108, 100]"
  by simp

lemma decode_uFFFD: "utf8_decode [0xEF, 0xBF, 0xBD] = Some [65533]"
  by (simp add: is_cont_def cont_bits_def)

lemma read_text_uFFFD: "read_bytes e = Inr [0xEF, 0xBF, 0xBD] \<Longrightarrow> read_text e = Inr [uFFFD]"
  by (simp add: read_text_def decode_uFFFD uFFFD_def del: utf8_decode.simps)

lemma read_text_marked: "read_text marked_txt = Inr [97, uFFFD, 10]"
  by (simp add: marked_txt_def read_text_def decode_marked uFFFD_def del: utf8_decode.simps)

lemma read_text_bad: "read_text bad_txt = Inl UnicodeDecodeError"
  by (simp add: bad_txt_def read_text_def decode_bad del: utf8_decode.simps)

lemma read_text_good:
  "read_text good_txt = Inr [104, 101, 108, 108, 111, 32, 119, 111, 114, 108, 100]"
  by (simp add: good_txt_def read_text_def decode_good del: utf8_decode.simps)

lemma read_text_locked: "read_text locked_txt = Inl (OSError PermissionError)"
  by (simp add: locked_txt_def read_text_def)

lemma example_attempts:
  "\<not> attempts docs_dir" "attempts marked_txt" "attempts bad_txt" "attempts good_txt"
  "\<not> attempts logo_png" "attempts locked_txt"
  "attempts a_png_txt" "\<not> attempts a_txt_png" "attempts dot_png"
  "\<not> attempts noexec_x_txt" "\<not> attempts noexec_x_png" "attempts later_txt" "attempts xff_txt"
  by (simp_all add: attempts_def example_defs suffix_def name_def skip_set_def)

lemma example_finds:
  "\<not> finds docs_dir" "finds marked_txt" "\<not> finds bad_txt" "\<not> finds good_txt"
  "\<not> finds logo_png" "\<not> finds locked_txt"
  "finds a_png_txt" "\<not> finds a_txt_png" "finds dot_png"
  "\<not> finds noexec_x_txt" "\<not> finds noexec_x_png" "finds later_txt" "finds xff_txt"
  by (simp_all add: finds_def example_attempts read_text_marked read_text_bad read_text_good
        read_text_locked uFFFD_def)
     (simp_all add: read_text_uFFFD a_png_txt_def dot_png_def later_txt_def xff_txt_def)

lemma example_prints:
  "\<not> prints docs_dir" "prints marked_txt" "\<not> prints bad_txt" "\<not> prints good_txt"
  "\<not> prints logo_png" "\<not> prints locked_txt"
  "prints a_png_txt" "\<not> prints a_txt_png" "prints dot_png"
  "\<not> prints noexec_x_txt" "\<not> prints noexec_x_png" "prints later_txt" "\<not> prints xff_txt"
  by (simp_all add: prints_def example_finds)
     (simp_all add: example_defs)

lemma example_abort:
  "abort_exn docs_dir = None" "abort_exn marked_txt = None" "abort_exn bad_txt = None"
  "abort_exn good_txt = None" "abort_exn logo_png = None" "abort_exn locked_txt = None"
  "abort_exn a_png_txt = None" "abort_exn a_txt_png = None" "abort_exn dot_png = None"
  "abort_exn noexec_x_txt = Some (OSError PermissionError)"
  "abort_exn noexec_x_png = Some (OSError PermissionError)"
  "abort_exn later_txt = None" "abort_exn xff_txt = Some UnicodeEncodeError"
  by (simp_all add: abort_exn_def example_finds)
     (simp_all add: example_defs)

lemma completed_example: "raised (main example_tree) = None"
  by (simp add: completed_iff example_tree_def example_abort)


lemma opened_example:
  "opened (main example_tree) = [''docs/marked.txt'', ''bad.txt'', ''good.txt'', ''locked.txt'']"
  unfolding completed_opened [OF completed_example]
  by (simp add: example_tree_def example_attempts) (simp add: example_defs)

lemma distinct_example: "distinct (map path example_tree)"
  by (simp add: example_tree_def example_defs)

lemma completed_suffix_tree: "raised (main suffix_tree) = None"
  by (simp add: completed_iff suffix_tree_def example_abort)

lemma stdout_suffix_tree: "stdout (main suffix_tree) = [''docs/a.png.txt'', ''docs/.png'']"
  unfolding completed_stdout [OF completed_suffix_tree]
  by (simp add: suffix_tree_def example_prints) (simp add: example_defs)

lemma distinct_suffix_tree: "distinct (map path suffix_tree)"
  by (simp add: suffix_tree_def example_defs)

section \<open>The claims\<close>

text \<open>
  In every statement below \<open>es\<close> is the enumeration of the tree, \<open>main es\<close> the run on
  it, \<open>stdout (main es)\<close> the lines it prints, \<open>opened (main es)\<close> the files whose
  content it asks for and \<open>raised (main es)\<close> the uncaught exception that ends it, if any.
  Paths of one enumeration are distinct.
\<close>

subsection \<open>C1: the file with bytes FF FE\<close>

text \<open>
  C1 as stated fails: the file \<^verbatim>\<open>bad.txt\<close>, a regular file whose extension is not in the
  skip-set and whose bytes are \<^verbatim>\<open>FF FE\<close>, is not reported; the run on it prints nothing
  and ends normally.
\<close>

theorem bad_txt_not_reported:
  "is_file bad_txt = Inr True \<and> suffix (path bad_txt) \<notin> skip_set
   \<and> read_bytes bad_txt = Inr [0xFF, 0xFE] \<and> stdout (main [bad_txt]) = []
   \<and> raised (main [bad_txt]) = None"
proof -
  have a: "attempts bad_txt"
    by (rule example_attempts)
  then have h: "is_file bad_txt = Inr True" "suffix (path bad_txt) \<notin> skip_set"
    by (simp_all add: attempts_def)
  have b: "read_bytes bad_txt = Inr [0xFF, 0xFE]"
    by (simp add: bad_txt_def)
  have r: "raised (main [bad_txt]) = None"
    by (simp add: completed_iff example_abort)
  have "stdout (main [bad_txt]) = []"
    unfolding completed_stdout [OF r] by (simp add: example_prints)
  with h b r show ?thesis
    by simp
qed

text \<open>
  C1, amended: for every file whose byte content is \<^verbatim>\<open>FF FE\<close>, the decode is strict and
  raises \<^verbatim>\<open>UnicodeDecodeError\<close> instead of substituting U+FFFD, and the path of the file
  is not printed.
\<close>

theorem invalid_bytes_not_reported:
  assumes "distinct (map path es)" and "e \<in> set es" and "read_bytes e = Inr [0xFF, 0xFE]"
  shows "read_text e = Inl UnicodeDecodeError \<and> path e \<notin> set (stdout (main es))"
proof -
  from assms(3) have r: "read_text e = Inl UnicodeDecodeError"
    by (simp add: read_text_def decode_bad del: utf8_decode.simps)
  then have "\<not> prints e"
    by (simp add: prints_def finds_def)
  with assms(1,2) have "path e \<notin> set (stdout (main es))"
    by (rule not_reported)
  with r show ?thesis by simp
qed

theorem invalid_bytes_not_reported_witness:
  "distinct (map path example_tree) \<and> bad_txt \<in> set example_tree
   \<and> read_bytes bad_txt = Inr [0xFF, 0xFE]
   \<and> read_text bad_txt = Inl UnicodeDecodeError
   \<and> path bad_txt \<notin> set (stdout (main example_tree))"
proof -
  have h1: "distinct (map path example_tree)"
    by (rule distinct_example)
  have h2: "bad_txt \<in> set example_tree"
    by (simp add: example_tree_def)
  have h3: "read_bytes bad_txt = Inr [0xFF, 0xFE]"
    by (simp add: bad_txt_def)
  note c = invalid_bytes_not_reported [OF h1 h2 h3]
  show ?thesis
    by (intro conjI) (rule h1 h2 h3 c [THEN conjunct1] c [THEN conjunct2])+
qed

subsection \<open>C2: the report condition\<close>

text \<open>
  C2 says that a regular file outside the skip-set whose bytes decode is printed if and
  only if the decoded text holds U+FFFD. The code departs from it where a call outside the
  \<^verbatim>\<open>try\<close> raises. The file whose name is the byte \<^verbatim>\<open>FF\<close> followed by \<^verbatim>\<open>.txt\<close> holds
  the encoding of U+FFFD: the run on it opens the file, raises \<^verbatim>\<open>UnicodeEncodeError\<close> in
  \<^verbatim>\<open>print\<close> and prints nothing. The file \<^verbatim>\<open>later/later.txt\<close> holds the same bytes: enumerated
  after \<^verbatim>\<open>noexec/x.txt\<close>, on which \<^verbatim>\<open>is_file()\<close> raises \<^verbatim>\<open>PermissionError\<close>, it is never
  visited. (\<open>completed_report_iff\<close> above: in a run that ends normally the claim holds.)
\<close>

theorem print_error_loses_report:
  "is_file xff_txt = Inr True \<and> suffix (path xff_txt) \<notin> skip_set
   \<and> read_bytes xff_txt = Inr [0xEF, 0xBF, 0xBD]
   \<and> utf8_decode [0xEF, 0xBF, 0xBD] = Some [uFFFD]
   \<and> main [xff_txt]
       = \<lparr>stdout = [], opened = [CHR 0xFF # ''.txt''], raised = Some UnicodeEncodeError\<rparr>
   \<and> is_file later_txt = Inr True \<and> suffix (path later_txt) \<notin> skip_set
   \<and> read_bytes later_txt = Inr [0xEF, 0xBF, 0xBD]
   \<and> main [noexec_x_txt, later_txt]
       = \<lparr>stdout = [], opened = [], raised = Some (OSError PermissionError)\<rparr>"
proof -
  have a: "attempts xff_txt" "attempts later_txt"
    by (rule example_attempts)+
  then have h: "is_file xff_txt = Inr True" "suffix (path xff_txt) \<notin> skip_set"
    "is_file later_txt = Inr True" "suffix (path later_txt) \<notin> skip_set"
    by (simp_all add: attempts_def)
  have b: "read_bytes xff_txt = Inr [0xEF, 0xBF, 0xBD]" "read_bytes later_txt = Inr [0xEF, 0xBF, 0xBD]"
    by (simp_all add: xff_txt_def later_txt_def)
  have d: "utf8_decode [0xEF, 0xBF, 0xBD] = Some [uFFFD]"
    unfolding decode_uFFFD by (simp add: uFFFD_def)
  have m1: "main [xff_txt]
       = \<lparr>stdout = [], opened = [CHR 0xFF # ''.txt''], raised = Some UnicodeEncodeError\<rparr>"
    by (simp add: main_def Let_def body_eq example_prints example_attempts example_abort)
       (simp add: xff_txt_def)
  have m2: "main [noexec_x_txt, later_txt]
       = \<lparr>stdout = [], opened = [], raised = Some (OSError PermissionError)\<rparr>"
    by (simp add: main_def Let_def body_eq example_prints example_attempts example_abort)
  show ?thesis
    by (intro conjI) (rule h b d m1 m2)+
qed

subsection \<open>C3: errors of one file\<close>

text \<open>
  C3 says that an error on one file never ends the traversal and never reaches the caller.
  That holds of \<^verbatim>\<open>read_text\<close> (\<open>read_error_caught\<close> above) and fails for the two calls
  outside the \<^verbatim>\<open>try\<close>: with \<^verbatim>\<open>noexec/x.txt\<close> between \<^verbatim>\<open>good.txt\<close> and
  \<^verbatim>\<open>docs/marked.txt\<close> the run ends with \<^verbatim>\<open>PermissionError\<close> from \<^verbatim>\<open>is_file()\<close>, and with the
  file named \<^verbatim>\<open>FF\<close> \<^verbatim>\<open>.txt\<close> in that place it ends with \<^verbatim>\<open>UnicodeEncodeError\<close> from
  \<^verbatim>\<open>print\<close>; either way \<^verbatim>\<open>docs/marked.txt\<close>, which the run without that file reports, is
  not visited.
\<close>

theorem uncaught_error_ends_run:
  "is_file noexec_x_txt = Inl PermissionError
   \<and> main [good_txt, noexec_x_txt, marked_txt]
       = \<lparr>stdout = [], opened = [''good.txt''], raised = Some (OSError PermissionError)\<rparr>
   \<and> print_raises xff_txt = Some UnicodeEncodeError
   \<and> main [good_txt, xff_txt, marked_txt]
       = \<lparr>stdout = [], opened = [''good.txt'', CHR 0xFF # ''.txt''],
          raised = Some UnicodeEncodeError\<rparr>
   \<and> main [good_txt, marked_txt]
       = \<lparr>stdout = [''docs/marked.txt''], opened = [''good.txt'', ''docs/marked.txt''],
          raised = None\<rparr>"
proof -
  have h: "is_file noexec_x_txt = Inl PermissionError" "print_raises xff_txt = Some UnicodeEncodeError"
    by (simp_all add: noexec_x_txt_def xff_txt_def)
  have m1: "main [good_txt, noexec_x_txt, marked_txt]
       = \<lparr>stdout = [], opened = [''good.txt''], raised = Some (OSError PermissionError)\<rparr>"
    by (simp add: main_def Let_def body_eq example_prints example_attempts example_abort)
       (simp add: good_txt_def)
  have m2: "main [good_txt, xff_txt, marked_txt]
       = \<lparr>stdout = [], opened = [''good.txt'', CHR 0xFF # ''.txt''],
          raised = Some UnicodeEncodeError\<rparr>"
    by (simp add: main_def Let_def body_eq example_prints example_attempts example_abort)
       (simp add: good_txt_def xff_txt_def)
  have m3: "main [good_txt, marked_txt]
       = \<lparr>stdout = [''docs/marked.txt''], opened = [''good.txt'', ''docs/marked.txt''],
          raised = None\<rparr>"
    by (simp add: main_def Let_def body_eq example_prints example_attempts example_abort)
       (simp add: good_txt_def marked_txt_def)
  show ?thesis
    by (intro conjI) (rule h m1 m2 m3)+
qed

subsection \<open>C4: the skip-set\<close>

text \<open>
  C4: a file whose suffix, compared as it is, belongs to the skip-set is never reported,
  whatever its bytes are.
\<close>

theorem skip_set_never_reported:
  assumes "distinct (map path es)" and "e \<in> set es" and "suffix (path e) \<in> skip_set"
  shows "path e \<notin> set (stdout (main es))"
proof -
  from assms(3) have "\<not> prints e"
    by (simp add: prints_def finds_def attempts_def)
  with assms(1,2) show ?thesis
    by (rule not_reported)
qed

theorem skip_set_never_reported_witness:
  "distinct (map path example_tree) \<and> logo_png \<in> set example_tree
   \<and> suffix (path logo_png) \<in> skip_set
   \<and> read_bytes logo_png = Inr [0xEF, 0xBF, 0xBD]
   \<and> path logo_png \<notin> set (stdout (main example_tree))"
proof -
  have h1: "distinct (map path example_tree)"
    by (rule distinct_example)
  have h2: "logo_png \<in> set example_tree"
    by (simp add: example_tree_def)
  have h3: "suffix (path logo_png) \<in> skip_set"
    by (simp add: logo_png_def suffix_def name_def skip_set_def)
  have b: "read_bytes logo_png = Inr [0xEF, 0xBF, 0xBD]"
    by (simp add: logo_png_def)
  note c = skip_set_never_reported [OF h1 h2 h3]
  show ?thesis
    by (intro conjI) (rule h1 h2 h3 b c)+
qed

subsection \<open>C5: well-formed text without U+FFFD\<close>

text \<open>
  C5: a file whose bytes are well-formed UTF-8 and whose decoded text has no U+FFFD is
  never reported.
\<close>

theorem clean_text_never_reported:
  assumes "distinct (map path es)" and "e \<in> set es"
    and "read_bytes e = Inr bs" and "utf8_decode bs = Some t" and "uFFFD \<notin> set t"
  shows "path e \<notin> set (stdout (main es))"
proof -
  from assms(3-5) have "\<not> report_condition e"
    by (simp add: report_condition_def)
  then have "\<not> prints e"
    by (simp add: prints_def finds_iff_report_condition)
  with assms(1,2) show ?thesis
    by (rule not_reported)
qed

theorem clean_text_never_reported_witness:
  "distinct (map path example_tree) \<and> good_txt \<in> set example_tree
   \<and> read_bytes good_txt = Inr [0x68, 0x65, 0x6C, 0x6C, 0x6F, 0x20, 0x77, 0x6F, 0x72, 0x6C, 0x64]
   \<and> utf8_decode [0x68, 0x65, 0x6C, 0x6C, 0x6F, 0x20, 0x77, 0x6F, 0x72, 0x6C, 0x64]
       = Some [104, 101, 108, 108, 111, 32, 119, 111, 114, 108, 100]
   \<and> uFFFD \<notin> set [104, 101, 108, 108, 111, 32, 119, 111, 114, 108, 100]
   \<and> path good_txt \<notin> set (stdout (main example_tree))"
proof -
  have h1: "distinct (map path example_tree)"
    by (rule distinct_example)
  have h2: "good_txt \<in> set example_tree"
    by (simp add: example_tree_def)
  have h3: "read_bytes good_txt
            = Inr [0x68, 0x65, 0x6C, 0x6C, 0x6F, 0x20, 0x77, 0x6F, 0x72, 0x6C, 0x64]"
    by (simp add: good_txt_def)
  note h4 = decode_good
  have h5: "uFFFD \<notin> set [104, 101, 108, 108, 111, 32, 119, 111, 114, 108, 100]"
    by (simp add: uFFFD_def)
  note c = clean_text_never_reported [OF h1 h2 h3 h4 h5]
  show ?thesis
    by (intro conjI) (rule h1 h2 h3 h4 h5 c)+
qed

subsection \<open>C6: entries that are not regular files\<close>

text \<open>
  C6: an entry for which \<^verbatim>\<open>is_file()\<close> returns false is skipped, the iteration leaves the
  effects as they were, and its path is never printed.
\<close>

theorem only_regular_files_reported:
  assumes "distinct (map path es)" and "e \<in> set es" and "is_file e = Inr False"
  shows "body e s = s \<and> path e \<notin> set (stdout (main es))"
proof -
  from assms(3) have "\<not> prints e"
    by (simp add: prints_def finds_def attempts_def)
  with assms(1,2) have "path e \<notin> set (stdout (main es))"
    by (rule not_reported)
  moreover from assms(3) have "body e s = s"
    by (simp add: body_unchanged)
  ultimately show ?thesis by simp
qed

theorem only_regular_files_reported_witness:
  "distinct (map path example_tree) \<and> docs_dir \<in> set example_tree \<and> is_file docs_dir = Inr False
   \<and> body docs_dir \<lparr>stdout = [], opened = [], raised = None\<rparr>
       = \<lparr>stdout = [], opened = [], raised = None\<rparr>
   \<and> path docs_dir \<notin> set (stdout (main example_tree))"
proof -
  have h1: "distinct (map path example_tree)"
    by (rule distinct_example)
  have h2: "docs_dir \<in> set example_tree"
    by (simp add: example_tree_def)
  have h3: "is_file docs_dir = Inr False"
    by (simp add: docs_dir_def)
  note c = only_regular_files_reported [OF h1 h2 h3,
      of "\<lparr>stdout = [], opened = [], raised = None\<rparr>"]
  show ?thesis
    by (intro conjI) (rule h1 h2 h3 c [THEN conjunct1] c [THEN conjunct2])+
qed

subsection \<open>C7: nothing to report\<close>

text \<open>
  C7 says that a tree without a file satisfying the report condition gives no output and
  a clean exit. No line is printed (\<open>no_report_condition_no_output\<close> above), but the exit
  is not always clean: on the tree whose one file is \<^verbatim>\<open>noexec/x.png\<close>, which does not
  satisfy the report condition, \<^verbatim>\<open>is_file()\<close> raises \<^verbatim>\<open>PermissionError\<close> outside the \<^verbatim>\<open>try\<close>
  and the run ends with that exception.
\<close>

theorem no_match_tree_aborts:
  "\<not> report_condition noexec_x_png
   \<and> main [noexec_x_png]
       = \<lparr>stdout = [], opened = [], raised = Some (OSError PermissionError)\<rparr>"
proof -
  have n: "\<not> report_condition noexec_x_png"
    unfolding finds_iff_report_condition [symmetric] by (rule example_finds)
  have m: "main [noexec_x_png]
       = \<lparr>stdout = [], opened = [], raised = Some (OSError PermissionError)\<rparr>"
    by (simp add: main_def Let_def body_eq example_prints example_attempts example_abort)
  show ?thesis
    by (intro conjI) (rule n m)+
qed

subsection \<open>C8: the same tree gives the same reports\<close>



subsection \<open>C9: the suffix is that of the final component\<close>

text \<open>
  C9: the suffix of a path is the suffix of its final component, and it is what follows
  the last dot of that name: when the name is \<open>stem\<close>, a dot and \<open>ext\<close>, with no dot in
  \<open>ext\<close>, the suffix is the dot and \<open>ext\<close>, except that it is empty when \<open>stem\<close> or
  \<open>ext\<close> is empty. So a regular file with such a name is skipped (neither read nor
  reported) exactly when \<open>stem\<close> and \<open>ext\<close> are not empty and the dot with \<open>ext\<close> is in
  the skip-set; otherwise it is read, and it is reported exactly when its text holds U+FFFD
  (and \<^verbatim>\<open>print\<close> does not raise). The names \<^verbatim>\<open>a.png.txt\<close>, \<^verbatim>\<open>a.txt.png\<close> and \<^verbatim>\<open>.png\<close> are
  the instances of the witness.
\<close>

theorem suffix_of_final_component:
  assumes "distinct (map path es)" and "e \<in> set es" and "is_file e = Inr True"
    and "name (path e) = stem @ CHR ''.'' # ext" and "CHR ''.'' \<notin> set ext"
  shows "suffix (path e) = suffix (name (path e))
    \<and> suffix (path e) = (if stem = [] \<or> ext = [] then [] else CHR ''.'' # ext)
    \<and> (if stem \<noteq> [] \<and> ext \<noteq> [] \<and> CHR ''.'' # ext \<in> skip_set
        then body e s = s \<and> path e \<notin> set (opened (main es)) \<and> path e \<notin> set (stdout (main es))
        else opened (body e s) = opened s @ [path e]
          \<and> (stdout (body e s) = stdout s @ [path e]
               \<longleftrightarrow> (\<exists>t. read_text e = Inr t \<and> uFFFD \<in> set t) \<and> print_raises e = None)
          \<and> (raised (main es) = None \<longrightarrow>
               path e \<in> set (opened (main es))
               \<and> (path e \<in> set (stdout (main es))
                    \<longleftrightarrow> (\<exists>t. read_text e = Inr t \<and> uFFFD \<in> set t))))"
proof -
  have s1: "suffix (path e) = suffix (name (path e))"
    by (simp add: suffix_name)
  have s2: "suffix (path e) = (if stem = [] \<or> ext = [] then [] else CHR ''.'' # ext)"
    using assms(4,5) by (rule suffix_of_name)
  have e0: "[] \<notin> skip_set"
    by (simp add: skip_set_def)
  have s3: "if stem \<noteq> [] \<and> ext \<noteq> [] \<and> CHR ''.'' # ext \<in> skip_set
        then body e s = s \<and> path e \<notin> set (opened (main es)) \<and> path e \<notin> set (stdout (main es))
        else opened (body e s) = opened s @ [path e]
          \<and> (stdout (body e s) = stdout s @ [path e]
               \<longleftrightarrow> (\<exists>t. read_text e = Inr t \<and> uFFFD \<in> set t) \<and> print_raises e = None)
          \<and> (raised (main es) = None \<longrightarrow>
               path e \<in> set (opened (main es))
               \<and> (path e \<in> set (stdout (main es))
                    \<longleftrightarrow> (\<exists>t. read_text e = Inr t \<and> uFFFD \<in> set t)))"
  proof (cases "stem \<noteq> [] \<and> ext \<noteq> [] \<and> CHR ''.'' # ext \<in> skip_set")
    case True
    with s2 have k: "suffix (path e) \<in> skip_set"
      by simp
    then have na: "\<not> attempts e"
      by (simp add: attempts_def)
    then have np: "\<not> prints e"
      by (simp add: prints_def finds_def)
    from assms(3) k have b: "body e s = s"
      by (simp add: body_unchanged)
    from assms(1,2) na have no: "path e \<notin> set (opened (main es))"
      by (rule not_opened)
    from assms(1,2) np have nr: "path e \<notin> set (stdout (main es))"
      by (rule not_reported)
    show ?thesis
      unfolding if_P [OF True] using b no nr by simp
  next
    case False
    with s2 e0 have "suffix (path e) \<notin> skip_set"
      by auto
    with assms(3) have a: "attempts e"
      by (simp add: attempts_def)
    then have f: "finds e \<longleftrightarrow> (\<exists>t. read_text e = Inr t \<and> uFFFD \<in> set t)"
      by (simp add: finds_iff)
    from a have o: "opened (body e s) = opened s @ [path e]"
      by (simp add: opened_body)
    have p: "stdout (body e s) = stdout s @ [path e]
               \<longleftrightarrow> (\<exists>t. read_text e = Inr t \<and> uFFFD \<in> set t) \<and> print_raises e = None"
      using f by (simp add: stdout_body prints_def)
    have c: "path e \<in> set (opened (main es))
               \<and> (path e \<in> set (stdout (main es)) \<longleftrightarrow> (\<exists>t. read_text e = Inr t \<and> uFFFD \<in> set t))"
      if r: "raised (main es) = None"
    proof -
      from r assms(2) have "abort_exn e = None"
        by (simp add: completed_iff)
      with assms(3) have "prints e \<longleftrightarrow> finds e"
        by (auto simp: abort_exn_def prints_def split: if_splits)
      with f a completed_reported_iff [OF r assms(1,2)] completed_opened_iff [OF r assms(1,2)]
      show ?thesis
        by simp
    qed
    show ?thesis
      unfolding if_not_P [OF False] using o p c by simp
  qed
  from s1 s2 s3 show ?thesis
    by (intro conjI)
qed

theorem suffix_of_final_component_witness:
  "distinct (map path suffix_tree) \<and> raised (main suffix_tree) = None
   \<and> a_png_txt \<in> set suffix_tree \<and> is_file a_png_txt = Inr True
   \<and> name (path a_png_txt) = ''a.png'' @ CHR ''.'' # ''txt'' \<and> CHR ''.'' \<notin> set ''txt''
   \<and> a_txt_png \<in> set suffix_tree \<and> is_file a_txt_png = Inr True
   \<and> name (path a_txt_png) = ''a.txt'' @ CHR ''.'' # ''png'' \<and> CHR ''.'' \<notin> set ''png''
   \<and> dot_png \<in> set suffix_tree \<and> is_file dot_png = Inr True
   \<and> name (path dot_png) = [] @ CHR ''.'' # ''png''
   \<and> suffix (path a_png_txt) = ''.txt'' \<and> path a_png_txt \<in> set (opened (main suffix_tree))
   \<and> path a_png_txt \<in> set (stdout (main suffix_tree))
   \<and> suffix (path a_txt_png) = ''.png'' \<and> path a_txt_png \<notin> set (opened (main suffix_tree))
   \<and> path a_txt_png \<notin> set (stdout (main suffix_tree))
   \<and> suffix (path dot_png) = [] \<and> path dot_png \<in> set (opened (main suffix_tree))
   \<and> path dot_png \<in> set (stdout (main suffix_tree))"
proof -
  let ?s = "\<lparr>stdout = [], opened = [], raised = None\<rparr>"
  have d: "distinct (map path suffix_tree)"
    by (rule distinct_suffix_tree)
  note r = completed_suffix_tree
  have m: "a_png_txt \<in> set suffix_tree" "a_txt_png \<in> set suffix_tree" "dot_png \<in> set suffix_tree"
    by (simp_all add: suffix_tree_def)
  have f: "is_file a_png_txt = Inr True" "is_file a_txt_png = Inr True" "is_file dot_png = Inr True"
    by (simp_all add: a_png_txt_def a_txt_png_def dot_png_def)
  have n: "name (path a_png_txt) = ''a.png'' @ CHR ''.'' # ''txt''"
    "name (path a_txt_png) = ''a.txt'' @ CHR ''.'' # ''png''"
    "name (path dot_png) = [] @ CHR ''.'' # ''png''"
    by (simp_all add: a_png_txt_def a_txt_png_def dot_png_def name_def)
  have x: "CHR ''.'' \<notin> set ''txt''" "CHR ''.'' \<notin> set ''png''"
    by simp_all
  have rt: "\<exists>t. read_text a_png_txt = Inr t \<and> uFFFD \<in> set t"
    "\<exists>t. read_text dot_png = Inr t \<and> uFFFD \<in> set t"
    by (simp_all add: read_text_uFFFD a_png_txt_def dot_png_def)
  note t1 = suffix_of_final_component [OF d m(1) f(1) n(1) x(1), of ?s]
  note t2 = suffix_of_final_component [OF d m(2) f(2) n(2) x(2), of ?s]
  note t3 = suffix_of_final_component [OF d m(3) f(3) n(3) x(2), of ?s]
  from t1 [THEN conjunct2, THEN conjunct1] have r1a: "suffix (path a_png_txt) = ''.txt''"
    by simp
  from t1 [THEN conjunct2, THEN conjunct2] r rt(1)
  have r1: "path a_png_txt \<in> set (opened (main suffix_tree))"
    "path a_png_txt \<in> set (stdout (main suffix_tree))"
    by (simp_all add: skip_set_def)
  from t2 [THEN conjunct2, THEN conjunct1] have r2a: "suffix (path a_txt_png) = ''.png''"
    by simp
  from t2 [THEN conjunct2, THEN conjunct2]
  have r2: "path a_txt_png \<notin> set (opened (main suffix_tree))"
    "path a_txt_png \<notin> set (stdout (main suffix_tree))"
    by (simp_all add: skip_set_def)
  from t3 [THEN conjunct2, THEN conjunct1] have r3a: "suffix (path dot_png) = []"
    by simp
  from t3 [THEN conjunct2, THEN conjunct2] r rt(2)
  have r3: "path dot_png \<in> set (opened (main suffix_tree))"
    "path dot_png \<in> set (stdout (main suffix_tree))"
    by simp_all
  show ?thesis
    by (intro conjI) (rule d r m f n x r1a r1 r2a r2 r3a r3)+
qed

subsection \<open>C10: no read before the guard\<close>

text \<open>
  C10: the content of an entry is asked for only if \<^verbatim>\<open>is_file()\<close> has returned true and
  the suffix is not in the skip-set, and in a run that ends normally exactly then. For an
  entry that is not a regular file, or whose suffix is in the skip-set, the iteration
  changes nothing; when \<^verbatim>\<open>is_file()\<close> raises, no file is opened and no line printed.
\<close>

theorem read_only_after_guard:
  assumes "distinct (map path es)" and "e \<in> set es"
  shows "(path e \<in> set (opened (main es)) \<longrightarrow> is_file e = Inr True \<and> suffix (path e) \<notin> skip_set)
    \<and> (raised (main es) = None \<longrightarrow>
         (path e \<in> set (opened (main es)) \<longleftrightarrow> is_file e = Inr True \<and> suffix (path e) \<notin> skip_set))
    \<and> (is_file e = Inr False \<or> (is_file e = Inr True \<and> suffix (path e) \<in> skip_set) \<longrightarrow> body e s = s)
    \<and> (is_file e \<noteq> Inr True \<or> suffix (path e) \<in> skip_set \<longrightarrow>
         opened (body e s) = opened s \<and> stdout (body e s) = stdout s)"
proof (intro conjI impI)
  assume "path e \<in> set (opened (main es))"
  with assms have "attempts e"
    by (rule opened_imp)
  then show "is_file e = Inr True" and "suffix (path e) \<notin> skip_set"
    by (simp_all add: attempts_def)
next
  assume "raised (main es) = None"
  from completed_opened_iff [OF this assms]
  show "path e \<in> set (opened (main es)) \<longleftrightarrow> is_file e = Inr True \<and> suffix (path e) \<notin> skip_set"
    by (simp add: attempts_def)
next
  assume "is_file e = Inr False \<or> (is_file e = Inr True \<and> suffix (path e) \<in> skip_set)"
  then show "body e s = s"
    by (rule body_unchanged)
next
  assume a: "is_file e \<noteq> Inr True \<or> suffix (path e) \<in> skip_set"
  then have "\<not> attempts e"
    by (auto simp: attempts_def)
  then show "opened (body e s) = opened s" and "stdout (body e s) = stdout s"
    by (simp_all add: opened_body stdout_body prints_def finds_def)
qed

theorem read_only_after_guard_witness:
  "distinct (map path example_tree) \<and> raised (main example_tree) = None
   \<and> docs_dir \<in> set example_tree \<and> is_file docs_dir = Inr False
   \<and> path docs_dir \<notin> set (opened (main example_tree))
   \<and> body docs_dir \<lparr>stdout = [], opened = [], raised = None\<rparr>
       = \<lparr>stdout = [], opened = [], raised = None\<rparr>
   \<and> logo_png \<in> set example_tree \<and> is_file logo_png = Inr True
   \<and> suffix (path logo_png) \<in> skip_set
   \<and> path logo_png \<notin> set (opened (main example_tree))
   \<and> body logo_png \<lparr>stdout = [], opened = [], raised = None\<rparr>
       = \<lparr>stdout = [], opened = [], raised = None\<rparr>
   \<and> good_txt \<in> set example_tree \<and> is_file good_txt = Inr True
   \<and> suffix (path good_txt) \<notin> skip_set
   \<and> path good_txt \<in> set (opened (main example_tree))"
proof -
  let ?s = "\<lparr>stdout = [], opened = [], raised = None\<rparr>"
  have d: "distinct (map path example_tree)"
    by (rule distinct_example)
  note r = completed_example
  have m: "docs_dir \<in> set example_tree" "logo_png \<in> set example_tree"
    "good_txt \<in> set example_tree"
    by (simp_all add: example_tree_def)
  have g1: "is_file docs_dir = Inr False"
    by (simp add: docs_dir_def)
  have g2: "is_file logo_png = Inr True" "suffix (path logo_png) \<in> skip_set"
    by (simp_all add: logo_png_def suffix_def name_def skip_set_def)
  have g3: "is_file good_txt = Inr True" "suffix (path good_txt) \<notin> skip_set"
    by (simp_all add: good_txt_def suffix_def name_def skip_set_def)
  note t1 = read_only_after_guard [OF d m(1), of ?s]
  note t2 = read_only_after_guard [OF d m(2), of ?s]
  note t3 = read_only_after_guard [OF d m(3), of ?s]
  from t1 [THEN conjunct1] g1 have r1a: "path docs_dir \<notin> set (opened (main example_tree))"
    by auto
  from t1 [THEN conjunct2, THEN conjunct2, THEN conjunct1] g1 have r1b: "body docs_dir ?s = ?s"
    by simp
  from t2 [THEN conjunct1] g2 have r2a: "path logo_png \<notin> set (opened (main example_tree))"
    by auto
  from t2 [THEN conjunct2, THEN conjunct2, THEN conjunct1] g2 have r2b: "body logo_png ?s = ?s"
    by simp
  from t3 [THEN conjunct2, THEN conjunct1, THEN mp, OF r] g3
  have r3: "path good_txt \<in> set (opened (main example_tree))"
    by simp
  show ?thesis
    by (intro conjI) (rule d r m g1 g2 g3 r1a r1b r2a r2b r3)+
qed

end
